theory Spec2Isabelle
  imports Main "HOL-Library.Sublist"
begin

section \<open>The control process of mcp_server.py\<close>

text \<open>
  The module keeps six globals: \<^verbatim>\<open>app_process\<close>, \<^verbatim>\<open>server_logs\<close>, \<^verbatim>\<open>console_logs\<close>,
  \<^verbatim>\<open>browser\<close>, \<^verbatim>\<open>page\<close> and \<^verbatim>\<open>playwright\<close>. They are the fields of the record
  \<open>sys\<close>; every tool takes the state and returns the new one. A seventh field,
  \<open>effects\<close>, is the list of calls to the operating system and to the automation
  driver that have completed so far, in order: it is what "side effect" means below.
\<close>

subsection \<open>Data\<close>

type_synonym handle = nat

text \<open>An \<^verbatim>\<open>asyncio.subprocess.Process\<close>: its pid and its returncode (None while it runs).\<close>

record process =
  pid :: nat
  returncode :: "int option"

text \<open>
  A raised Python exception, with \<^verbatim>\<open>str(e)\<close>. \<open>Exception\<close> stands for an instance of
  \<^verbatim>\<open>Exception\<close> (what \<^verbatim>\<open>except Exception\<close> catches), \<open>BaseException\<close> for one
  that is not (\<^verbatim>\<open>asyncio.CancelledError\<close>, \<^verbatim>\<open>KeyboardInterrupt\<close>).
\<close>

datatype exn = Exception string | BaseException string

text \<open>The dict built by the two page listeners; both build all five keys.\<close>

record log_entry =
  level :: string
  message :: string
  timestamp :: string
  url :: string
  args :: "string list"

datatype effect =
    Spawned nat
  | TaskCreated nat
  | Slept
  | DriverStarted handle
  | BrowserLaunched handle
  | PageOpened handle
  | ListenerAdded handle string
  | Terminated nat
  | Waited nat
  | BrowserClosed handle
  | DriverStopped handle
  | Navigated handle string
  | Clicked handle string

record sys =
  app_process :: "process option"
  server_logs :: "string list"
  console_logs :: "log_entry list"
  browser :: "handle option"
  page :: "handle option"
  playwright :: "handle option"
  effects :: "effect list"

text \<open>The module's state after import (lines 10 to 15).\<close>

definition init :: sys where
  "init = \<lparr>app_process = None, server_logs = [], console_logs = [],
            browser = None, page = None, playwright = None, effects = []\<rparr>"

text \<open>
  What the outside world answers to each awaited call during one tool invocation:
  the value it returns, or the exception it raises. \<open>child_exit\<close> is the exit code
  that the event loop has stored in the spawned child's \<^verbatim>\<open>returncode\<close> while the
  call was suspended in its awaits, or None when the child is still running then.
\<close>

record env =
  create_subprocess_exec :: "exn + nat"
  playwright_start :: "exn + handle"
  chromium_launch :: "exn + handle"
  browser_new_page :: "exn + handle"
  process_terminate :: "exn option"
  process_wait :: "exn option"
  browser_close :: "exn option"
  playwright_stop :: "exn option"
  page_goto :: "string \<Rightarrow> exn option"
  page_click :: "string \<Rightarrow> exn option"
  child_exit :: "int option"

text \<open>\<^verbatim>\<open>app_process and app_process.returncode is None\<close>\<close>

definition running :: "sys \<Rightarrow> bool" where
  "running s = (case app_process s of None \<Rightarrow> False | Some p \<Rightarrow> returncode p = None)"

definition did :: "effect list \<Rightarrow> sys \<Rightarrow> sys" where
  "did es s = s\<lparr>effects := effects s @ es\<rparr>"

text \<open>
  The child exits with code \<open>c\<close>: the event loop stores the code in the handle's
  \<^verbatim>\<open>returncode\<close>. This happens on its own, during an await of a tool or between two
  tool calls.
\<close>

definition child_exited :: "int \<Rightarrow> sys \<Rightarrow> sys" where
  "child_exited c s =
     (case app_process s of
        None \<Rightarrow> s
      | Some p \<Rightarrow>
          if returncode p = None then s\<lparr>app_process := Some (p\<lparr>returncode := Some c\<rparr>)\<rparr>
          else s)"

subsection \<open>setup_browser_console_capture (lines 27 to 68)\<close>

text \<open>
  Each global is assigned only when the awaited call on the right-hand side returned;
  an exception leaves the function at that line with the earlier assignments made.
  The function has no handler and no \<^verbatim>\<open>return False\<close>.
\<close>

definition setup_browser_console_capture :: "env \<Rightarrow> sys \<Rightarrow> (exn + bool) \<times> sys" where
  "setup_browser_console_capture e s =
     (case playwright_start e of
        Inl x \<Rightarrow> (Inl x, s)
      | Inr pw \<Rightarrow>
          let s1 = did [DriverStarted pw] (s\<lparr>playwright := Some pw\<rparr>) in
          (case chromium_launch e of
             Inl x \<Rightarrow> (Inl x, s1)
           | Inr b \<Rightarrow>
               let s2 = did [BrowserLaunched b] (s1\<lparr>browser := Some b\<rparr>) in
               (case browser_new_page e of
                  Inl x \<Rightarrow> (Inl x, s2)
                | Inr pg \<Rightarrow>
                    let s3 = did [PageOpened pg] (s2\<lparr>page := Some pg\<rparr>);
                        s4 = s3\<lparr>console_logs := []\<rparr>;
                        s5 = did [ListenerAdded pg ''console'', ListenerAdded pg ''pageerror''] s4
                    in (Inr True, s5))))"

subsection \<open>start_app (lines 70 to 94)\<close>

text \<open>
  The child may exit while start_app sleeps (line 88) or awaits the setup. start_app
  does not read \<^verbatim>\<open>returncode\<close> again after the spawn, so when in these awaits the exit
  happens makes no difference to it; the model places it in the sleep.
\<close>

definition start_app :: "env \<Rightarrow> sys \<Rightarrow> (exn + string) \<times> sys" where
  "start_app e s =
     (if running s then (Inr ''App is already running.'', s)
      else
        (case create_subprocess_exec e of
           Inl x \<Rightarrow> (Inl x, s)
         | Inr p \<Rightarrow>
             let s1 = did [Spawned p] (s\<lparr>app_process := Some \<lparr>pid = p, returncode = None\<rparr>\<rparr>);
                 s2 = did [TaskCreated p, Slept] s1;
                 s2a = (case child_exit e of None \<Rightarrow> s2 | Some c \<Rightarrow> child_exited c s2)
             in (case setup_browser_console_capture e s2a of
                   (Inl x, s3) \<Rightarrow> (Inl x, s3)
                 | (Inr ok, s3) \<Rightarrow>
                     (Inr (if ok
                           then ''App started successfully. Server is running on http://localhost:5001 with browser console capture enabled.''
                           else ''App started successfully. Server is running on http://localhost:5001 (browser console capture failed to initialize).''),
                      s3))))"






subsection \<open>stop_app (lines 96 to 118)\<close>

text \<open>Lines 101 to 104: terminate and await a live process, then drop the handle.\<close>

definition stop_process :: "env \<Rightarrow> sys \<Rightarrow> exn option \<times> sys" where
  "stop_process e s =
     (case app_process s of
        None \<Rightarrow> (None, s)
      | Some p \<Rightarrow>
          if returncode p = None then
            (case process_terminate e of
               Some x \<Rightarrow> (Some x, s)
             | None \<Rightarrow>
                 let s1 = did [Terminated (pid p)] s in
                 (case process_wait e of
                    Some x \<Rightarrow> (Some x, s1)
                  | None \<Rightarrow> (None, (did [Waited (pid p)] s1)\<lparr>app_process := None\<rparr>)))
          else (None, s))"

text \<open>Lines 107 to 109.\<close>

definition stop_browser :: "env \<Rightarrow> sys \<Rightarrow> exn option \<times> sys" where
  "stop_browser e s =
     (case browser s of
        None \<Rightarrow> (None, s)
      | Some b \<Rightarrow>
          (case browser_close e of
             Some x \<Rightarrow> (Some x, s)
           | None \<Rightarrow> (None, (did [BrowserClosed b] s)\<lparr>browser := None\<rparr>)))"

text \<open>Lines 111 to 113.\<close>

definition stop_driver :: "env \<Rightarrow> sys \<Rightarrow> exn option \<times> sys" where
  "stop_driver e s =
     (case playwright s of
        None \<Rightarrow> (None, s)
      | Some pw \<Rightarrow>
          (case playwright_stop e of
             Some x \<Rightarrow> (Some x, s)
           | None \<Rightarrow> (None, (did [DriverStopped pw] s)\<lparr>playwright := None\<rparr>)))"

definition stop_app :: "env \<Rightarrow> sys \<Rightarrow> (exn + string) \<times> sys" where
  "stop_app e s =
     (case stop_process e s of
        (Some x, s1) \<Rightarrow> (Inl x, s1)
      | (None, s1) \<Rightarrow>
          (case stop_browser e s1 of
             (Some x, s2) \<Rightarrow> (Inl x, s2)
           | (None, s2) \<Rightarrow>
               (case stop_driver e s2 of
                  (Some x, s3) \<Rightarrow> (Inl x, s3)
                | (None, s3) \<Rightarrow>
                    (Inr (if app_process s3 = None then ''App stopped successfully.''
                          else ''App is not running.''), s3))))"

subsection \<open>The page listeners (lines 40 to 66)\<close>

text \<open>
  A console message carries \<^verbatim>\<open>msg.type\<close>, \<^verbatim>\<open>msg.text\<close> and the stringified
  \<^verbatim>\<open>msg.args\<close>; a page error carries \<^verbatim>\<open>str(error)\<close>. Both come with what
  \<^verbatim>\<open>time.strftime\<close> and \<^verbatim>\<open>page.url\<close> answer when the listener runs.
\<close>

datatype page_event =
    Console string string "string list" string string
  | PageError string string string

definition handle_console_message ::
    "string \<Rightarrow> string \<Rightarrow> string list \<Rightarrow> string \<Rightarrow> string \<Rightarrow> sys \<Rightarrow> sys" where
  "handle_console_message ty txt as ts u s =
     (let log_entry = \<lparr>level = ty, message = txt, timestamp = ts, url = u, args = as\<rparr>;
          logs = console_logs s @ [log_entry]
      in s\<lparr>console_logs := (if length logs > 100 then tl logs else logs)\<rparr>)"

definition handle_page_error :: "string \<Rightarrow> string \<Rightarrow> string \<Rightarrow> sys \<Rightarrow> sys" where
  "handle_page_error err ts u s =
     (let log_entry = \<lparr>level = ''error'', message = ''Page Error: '' @ err,
                        timestamp = ts, url = u, args = []\<rparr>
      in s\<lparr>console_logs := console_logs s @ [log_entry]\<rparr>)"

fun dispatch :: "page_event \<Rightarrow> sys \<Rightarrow> sys" where
  "dispatch (Console ty txt as ts u) s = handle_console_message ty txt as ts u s"
| "dispatch (PageError err ts u) s = handle_page_error err ts u s"

text \<open>The listeners run once per event, in the order the page emits them.\<close>

fun record_events :: "page_event list \<Rightarrow> sys \<Rightarrow> sys" where
  "record_events [] s = s"
| "record_events (ev # evs) s = record_events evs (dispatch ev s)"

text \<open>The entry an event is stored as.\<close>

fun entry_of :: "page_event \<Rightarrow> log_entry" where
  "entry_of (Console ty txt as ts u) =
     \<lparr>level = ty, message = txt, timestamp = ts, url = u, args = as\<rparr>"
| "entry_of (PageError err ts u) =
     \<lparr>level = ''error'', message = ''Page Error: '' @ err, timestamp = ts, url = u, args = []\<rparr>"

fun is_console :: "page_event \<Rightarrow> bool" where
  "is_console (Console _ _ _ _ _) = True"
| "is_console (PageError _ _ _) = False"

subsection \<open>Strings\<close>

text \<open>\<^verbatim>\<open>sep.join(xs)\<close>\<close>

fun join :: "string \<Rightarrow> string list \<Rightarrow> string" where
  "join sep [] = []"
| "join sep [x] = x"
| "join sep (x # y # ys) = x @ sep @ join sep (y # ys)"

definition newline :: string where
  "newline = [CHR 0x0A]"

text \<open>
  The slice \<^verbatim>\<open>xs[-n:]\<close> for \<open>n > 0\<close>: Python starts at \<^verbatim>\<open>len(xs) - n\<close>, or at 0 when
  that is negative.
\<close>

definition py_last :: "nat \<Rightarrow> 'a list \<Rightarrow> 'a list" where
  "py_last n xs =
     (let start = int (length xs) - int n
      in drop (nat (if start < 0 then 0 else start)) xs)"

text \<open>\<^verbatim>\<open>str.upper\<close> on ASCII text (the console message types are ASCII words).\<close>

definition upper_char :: "char \<Rightarrow> char" where
  "upper_char c =
     (let n = (of_char c :: nat) in if 97 \<le> n \<and> n \<le> 122 then char_of (n - 32) else c)"

definition upper :: "string \<Rightarrow> string" where
  "upper s = map upper_char s"

text \<open>\<^verbatim>\<open>str(n)\<close> for a process id.\<close>

function str_nat :: "nat \<Rightarrow> string" where
  "str_nat n =
     (if n < 10 then [char_of (48 + n)] else str_nat (n div 10) @ [char_of (48 + n mod 10)])"
  by pat_completeness auto
termination
  by (relation "measure id") auto

text \<open>
  \<^verbatim>\<open>str.rstrip()\<close> drops the trailing characters for which \<^verbatim>\<open>str.isspace\<close> holds:
  U+0009 to U+000D, U+001C to U+0020, U+0085, U+00A0, U+1680, U+2000 to U+200A, U+2028,
  U+2029, U+202F, U+205F and U+3000. Decoded text is kept here as its UTF-8 bytes, in
  which a character is the last one exactly when its encoding ends the text.
  \<open>space_width\<close> takes the bytes of a text last byte first and gives the number of bytes of
  a whitespace character at its end, 0 when there is none.
\<close>

definition space_width :: "string \<Rightarrow> nat" where
  "space_width bs =
     (case bs of
        [] \<Rightarrow> 0
      | c0 # r1 \<Rightarrow>
          let b0 = (of_char c0 :: nat) in
          if (9 \<le> b0 \<and> b0 \<le> 13) \<or> (28 \<le> b0 \<and> b0 \<le> 32) then 1
          else
            (case r1 of
               [] \<Rightarrow> 0
             | c1 # r2 \<Rightarrow>
                 let b1 = (of_char c1 :: nat) in
                 if b1 = 0xC2 \<and> (b0 = 0x85 \<or> b0 = 0xA0) then 2
                 else
                   (case r2 of
                      [] \<Rightarrow> 0
                    | c2 # _ \<Rightarrow>
                        let b2 = (of_char c2 :: nat) in
                        if (b2 = 0xE1 \<and> b1 = 0x9A \<and> b0 = 0x80) \<or>
                           (b2 = 0xE2 \<and> b1 = 0x80 \<and>
                              ((0x80 \<le> b0 \<and> b0 \<le> 0x8A) \<or> b0 = 0xA8 \<or> b0 = 0xA9 \<or> b0 = 0xAF)) \<or>
                           (b2 = 0xE2 \<and> b1 = 0x81 \<and> b0 = 0x9F) \<or>
                           (b2 = 0xE3 \<and> b1 = 0x80 \<and> b0 = 0x80)
                        then 3 else 0)))"

function strip_rev :: "string \<Rightarrow> string" where
  "strip_rev bs = (if space_width bs = 0 then bs else strip_rev (drop (space_width bs) bs))"
  by pat_completeness auto
termination
  by (relation "measure length") (auto simp: space_width_def split: list.splits)

definition rstrip :: "string \<Rightarrow> string" where
  "rstrip s = rev (strip_rev (rev s))"

subsection \<open>get_console_logs (lines 120 to 138)\<close>

text \<open>
  The f-string of line 135. Every entry has all its keys, so the defaults given to
  \<^verbatim>\<open>log.get\<close> are never taken.
\<close>

definition format_entry :: "log_entry \<Rightarrow> string" where
  "format_entry l =
     ''['' @ timestamp l @ ''] ['' @ upper (level l) @ ''] '' @ message l @ '' - '' @ url l"

text \<open>The loop of lines 133 to 136, appending to \<^verbatim>\<open>formatted_logs\<close>.\<close>

fun format_loop :: "string list \<Rightarrow> log_entry list \<Rightarrow> string list" where
  "format_loop formatted_logs [] = formatted_logs"
| "format_loop formatted_logs (l # ls) = format_loop (formatted_logs @ [format_entry l]) ls"

definition get_console_logs :: "sys \<Rightarrow> string" where
  "get_console_logs s =
     (if \<not> running s then ''App is not running. Start the app first to capture console logs.''
      else if console_logs s = []
      then ''No browser console logs captured yet. Use navigate_to() to visit pages and generate logs.''
      else join newline (format_loop [] (py_last 20 (console_logs s))))"

subsection \<open>navigate_to (lines 140 to 157) and click_element (lines 187 to 203)\<close>

definition navigate_to :: "env \<Rightarrow> string \<Rightarrow> sys \<Rightarrow> (exn + string) \<times> sys" where
  "navigate_to e path s =
     (if \<not> running s then (Inr ''App is not running. Start the app first.'', s)
      else
        (case page s of
           None \<Rightarrow> (Inr ''Browser is not initialized. Restart the app.'', s)
         | Some pg \<Rightarrow>
             let u = ''http://localhost:5001'' @ path in
             (case page_goto e u of
                None \<Rightarrow> (Inr (''Navigated to '' @ u), did [Navigated pg u, Slept] s)
              | Some (Exception m) \<Rightarrow> (Inr (''Failed to navigate: '' @ m), s)
              | Some (BaseException m) \<Rightarrow> (Inl (BaseException m), s))))"

definition click_element :: "env \<Rightarrow> string \<Rightarrow> sys \<Rightarrow> (exn + string) \<times> sys" where
  "click_element e selector s =
     (if \<not> running s then (Inr ''App is not running. Start the app first.'', s)
      else
        (case page s of
           None \<Rightarrow> (Inr ''Browser is not initialized. Restart the app.'', s)
         | Some pg \<Rightarrow>
             (case page_click e selector of
                None \<Rightarrow> (Inr (''Clicked element: '' @ selector), did [Clicked pg selector, Slept] s)
              | Some (Exception m) \<Rightarrow>
                  (Inr (''Failed to click element '' @ [CHR 0x27] @ selector @ [CHR 0x27] @ '': '' @ m), s)
              | Some (BaseException m) \<Rightarrow> (Inl (BaseException m), s))))"

subsection \<open>get_server_logs (lines 159 to 177)\<close>

text \<open>
  The loop of lines 165 to 169 on the queue's contents. \<^verbatim>\<open>get\<close> on a queue that is not
  empty returns its head at once, without suspending, so no other task runs inside the loop.
\<close>

fun drain :: "string list \<Rightarrow> string list \<Rightarrow> string list \<times> string list" where
  "drain logs [] = (logs, [])"
| "drain logs (l # queue) = drain (logs @ [l]) queue"

definition get_server_logs :: "sys \<Rightarrow> string \<times> sys" where
  "get_server_logs s =
     (case drain [] (server_logs s) of
        (logs, queue) \<Rightarrow>
          let s1 = s\<lparr>server_logs := queue\<rparr> in
          if logs = [] then
            (if running s1 then (''No new server logs. Server is running.'', s1)
             else (''No server logs. Server is not running.'', s1))
          else (join newline (py_last 50 logs), s1))"

subsection \<open>get_app_status (lines 179 to 185)\<close>

definition get_app_status :: "sys \<Rightarrow> string" where
  "get_app_status s =
     (case app_process s of
        None \<Rightarrow> ''App is not running''
      | Some p \<Rightarrow>
          if returncode p = None then
            (let browser_status =
                   (if browser s \<noteq> None \<and> page s \<noteq> None then ''Browser console capture enabled''
                    else ''Browser not initialized'')
             in ''App is running (PID: '' @ str_nat (pid p) @ ''). '' @ browser_status)
          else ''App is not running'')"

subsection \<open>capture_output (lines 17 to 25)\<close>

text \<open>
  The relay task of one process, run step by step so that other tasks can run between
  two of its reads. \<open>stdout_rest\<close> and \<open>stderr_rest\<close> are the lines each pipe has still
  to deliver before its end of file. One step is one iteration of one of the two loops,
  or the end of a loop at end of file. \<open>decode\<close> is \<^verbatim>\<open>bytes.decode('utf-8')\<close>, which
  raises on bytes that are not UTF-8; the task then ends with that exception. \<open>put_log\<close>
  records every \<^verbatim>\<open>put\<close> of this task in order, with the stream the line came from.
\<close>

datatype stream = Stdout | Stderr

datatype phase = ReadingStdout | ReadingStderr | Returned | Raised

record relay =
  phase :: phase
  stdout_rest :: "string list"
  stderr_rest :: "string list"
  put_log :: "(stream \<times> string) list"

definition new_relay :: "string list \<Rightarrow> string list \<Rightarrow> relay" where
  "new_relay out err = \<lparr>phase = ReadingStdout, stdout_rest = out, stderr_rest = err, put_log = []\<rparr>"

definition put_line ::
    "(string \<Rightarrow> string option) \<Rightarrow> stream \<Rightarrow> string \<Rightarrow> relay \<times> sys \<Rightarrow> relay \<times> sys" where
  "put_line decode st line rs =
     (case rs of (r, s) \<Rightarrow>
        if line = [] then (r, s)
        else
          (case decode line of
             None \<Rightarrow> (r\<lparr>phase := Raised\<rparr>, s)
           | Some t \<Rightarrow>
               (r\<lparr>put_log := put_log r @ [(st, rstrip t)]\<rparr>,
                s\<lparr>server_logs := server_logs s @ [rstrip t]\<rparr>)))"

definition capture_output_step ::
    "(string \<Rightarrow> string option) \<Rightarrow> relay \<times> sys \<Rightarrow> relay \<times> sys" where
  "capture_output_step decode rs =
     (case rs of (r, s) \<Rightarrow>
        (case phase r of
           ReadingStdout \<Rightarrow>
             (case stdout_rest r of
                [] \<Rightarrow> (r\<lparr>phase := ReadingStderr\<rparr>, s)
              | l # ls \<Rightarrow> put_line decode Stdout l (r\<lparr>stdout_rest := ls\<rparr>, s))
         | ReadingStderr \<Rightarrow>
             (case stderr_rest r of
                [] \<Rightarrow> (r\<lparr>phase := Returned\<rparr>, s)
              | l # ls \<Rightarrow> put_line decode Stderr l (r\<lparr>stderr_rest := ls\<rparr>, s))
         | Returned \<Rightarrow> (r, s)
         | Raised \<Rightarrow> (r, s)))"

text \<open>
  A schedule: the relay task takes a step, or a client call of \<^verbatim>\<open>get_server_logs\<close>
  runs in between.
\<close>

datatype action = RelayStep | GetServerLogs

fun act :: "(string \<Rightarrow> string option) \<Rightarrow> action \<Rightarrow> relay \<times> sys \<Rightarrow> relay \<times> sys" where
  "act decode RelayStep rs = capture_output_step decode rs"
| "act decode GetServerLogs (r, s) = (r, snd (get_server_logs s))"

fun run :: "(string \<Rightarrow> string option) \<Rightarrow> action list \<Rightarrow> relay \<times> sys \<Rightarrow> relay \<times> sys" where
  "run decode [] rs = rs"
| "run decode (a # as) rs = run decode as (act decode a rs)"

text \<open>All stdout entries of a put log come before all its stderr entries.\<close>

fun stdout_first :: "(stream \<times> string) list \<Rightarrow> bool" where
  "stdout_first [] = True"
| "stdout_first ((Stdout, _) # xs) = stdout_first xs"
| "stdout_first ((Stderr, _) # xs) = list_all (\<lambda>x. fst x = Stderr) xs"

text \<open>What one of the two loops puts for the lines \<open>xs\<close> when each of them decodes.\<close>

definition relay_puts :: "(string \<Rightarrow> string option) \<Rightarrow> string list \<Rightarrow> string list" where
  "relay_puts decode xs = map (\<lambda>l. rstrip (the (decode l))) (filter (\<lambda>l. l \<noteq> []) xs)"

text \<open>No entry of a put log comes from stderr.\<close>

definition only_stdout :: "(stream \<times> string) list \<Rightarrow> bool" where
  "only_stdout xs = list_all (\<lambda>x. fst x = Stdout) xs"

text \<open>
  What holds of the relay task and the queue at every moment of a run that started with
  the queue \<open>q0\<close>.
\<close>

definition relay_inv :: "string list \<Rightarrow> relay \<times> sys \<Rightarrow> bool" where
  "relay_inv q0 rs =
     (case rs of (r, s) \<Rightarrow>
        stdout_first (put_log r) \<and>
        (only_stdout (put_log r) \<or> (stdout_rest r = [] \<and> phase r \<noteq> ReadingStdout)) \<and>
        (phase r = ReadingStdout \<longrightarrow> only_stdout (put_log r)) \<and>
        (phase r = ReadingStderr \<longrightarrow> stdout_rest r = []) \<and>
        suffix (server_logs s) (q0 @ map snd (put_log r)))"

subsection \<open>Environments\<close>

text \<open>The four calls that stop_app awaits all return.\<close>

definition teardown_completes :: "env \<Rightarrow> bool" where
  "teardown_completes e =
     (process_terminate e = None \<and> process_wait e = None \<and>
      browser_close e = None \<and> playwright_stop e = None)"

text \<open>An environment in which every call returns.\<close>

definition ok_env :: env where
  "ok_env = \<lparr>create_subprocess_exec = Inr 4242, playwright_start = Inr 1,
             chromium_launch = Inr 2, browser_new_page = Inr 3,
             process_terminate = None, process_wait = None,
             browser_close = None, playwright_stop = None,
             page_goto = (\<lambda>_. None), page_click = (\<lambda>_. None), child_exit = None\<rparr>"

text \<open>The state that a first start_app reaches from \<open>init\<close> in \<open>ok_env\<close>.\<close>

definition started :: sys where
  "started = \<lparr>app_process = Some \<lparr>pid = 4242, returncode = None\<rparr>, server_logs = [],
     console_logs = [], browser = Some 2, page = Some 3, playwright = Some 1,
     effects = [Spawned 4242, TaskCreated 4242, Slept, DriverStarted 1, BrowserLaunched 2,
       PageOpened 3, ListenerAdded 3 ''console'', ListenerAdded 3 ''pageerror'']\<rparr>"

text \<open>As \<open>ok_env\<close>, but the browser cannot be launched.\<close>

definition launch_fails_env :: env where
  "launch_fails_env = ok_env\<lparr>chromium_launch := Inl (Exception ''Executable does not exist'')\<rparr>"

text \<open>As \<open>ok_env\<close>, but no element matches the selector.\<close>

definition no_element_env :: env where
  "no_element_env = ok_env\<lparr>page_click := (\<lambda>_. Some (Exception ''Timeout 30000ms exceeded''))\<rparr>"



text \<open>A console message followed by a page error.\<close>

definition two_events :: "page_event list" where
  "two_events = [Console ''log'' ''hello'' [] ''2026-01-01 10:00:00'' ''http://localhost:5001/'',
                 PageError ''boom'' ''2026-01-01 10:00:01'' ''http://localhost:5001/'']"

text \<open>One page error followed by a hundred more.\<close>

definition page_errors_101 :: "page_event list" where
  "page_errors_101 =
     PageError ''first'' ''2026-01-01 10:00:00'' ''http://localhost:5001/'' #
     replicate 100 (PageError ''later'' ''2026-01-01 10:00:01'' ''http://localhost:5001/'')"

section \<open>Properties\<close>

subsection \<open>Helper facts\<close>


lemma child_exited_not_running: "\<not> running (child_exited c s)"
  by (simp add: child_exited_def running_def split: option.splits)


lemma running_started: "running started"
  by (simp add: started_def running_def)

lemma drain_eq: "drain logs queue = (logs @ queue, [])"
  by (induction queue arbitrary: logs) auto

lemma format_loop_eq: "format_loop acc ls = acc @ map format_entry ls"
  by (induction ls arbitrary: acc) auto

lemma py_last_drop: "py_last n xs = drop (length xs - n) xs"
  by (auto simp: py_last_def Let_def nat_diff_distrib')

lemma length_py_last: "length (py_last n xs) = min n (length xs)"
  by (simp add: py_last_drop)

lemma suffix_py_last: "suffix (py_last n xs) xs"
  by (simp add: py_last_drop suffix_drop)

lemma stop_app_returns: "teardown_completes e \<Longrightarrow> \<exists>m s'. stop_app e s = (Inr m, s')"
  by (auto simp: stop_app_def stop_process_def stop_browser_def stop_driver_def
      teardown_completes_def Let_def split: option.splits)

lemma teardown_ok_env: "teardown_completes ok_env"
  by (simp add: teardown_completes_def ok_env_def)

lemma stop_app_started:
  "stop_app ok_env started =
     (Inr ''App stopped successfully.'',
      started\<lparr>app_process := None, browser := None, playwright := None,
        effects := effects started @
          [Terminated 4242, Waited 4242, BrowserClosed 2, DriverStopped 1]\<rparr>)"
  by (simp add: stop_app_def stop_process_def stop_browser_def stop_driver_def did_def
      started_def ok_env_def)

text \<open>
  setup_browser_console_capture returns True or raises; start_app therefore never
  takes the branch of line 94, and passes on whatever the setup raises.
\<close>

lemma setup_returns_True: "setup_browser_console_capture e s = (Inr ok, s') \<Longrightarrow> ok"
  by (auto simp: setup_browser_console_capture_def Let_def split: sum.splits)

lemma start_app_never_degraded:
  "fst (start_app e s) \<noteq>
     Inr ''App started successfully. Server is running on http://localhost:5001 (browser console capture failed to initialize).''"
  by (auto simp: start_app_def Let_def dest: setup_returns_True split: sum.splits prod.splits)

lemma setup_failure_escapes:
  "\<not> running s \<Longrightarrow> create_subprocess_exec e = Inr p \<Longrightarrow>
   (playwright_start e = Inl x \<or>
    (\<exists>pw. playwright_start e = Inr pw \<and> (chromium_launch e = Inl x \<or>
       (\<exists>b. chromium_launch e = Inr b \<and> browser_new_page e = Inl x)))) \<Longrightarrow>
   fst (start_app e s) = Inl x"
  by (auto simp: start_app_def setup_browser_console_capture_def Let_def split: sum.splits prod.splits)

lemma get_server_logs_nonempty:
  "server_logs s \<noteq> [] \<Longrightarrow>
     get_server_logs s = (join newline (py_last 50 (server_logs s)), s\<lparr>server_logs := []\<rparr>)"
  by (simp add: get_server_logs_def drain_eq)

lemma get_server_logs_empty:
  "server_logs s = [] \<Longrightarrow>
     get_server_logs s =
       ((if running s then ''No new server logs. Server is running.''
         else ''No server logs. Server is not running.''), s)"
  by (simp add: get_server_logs_def running_def)






text \<open>
  The two listeners. Page errors only ever extend the list. Console messages alone
  keep a list of at most 100 entries at the last 100 of what was emitted. Under any
  mix of the two the list is a final segment of what was emitted.
\<close>

lemma page_errors_appended:
  "list_all (\<lambda>ev. \<not> is_console ev) evs \<Longrightarrow>
     console_logs (record_events evs s) = console_logs s @ map entry_of evs"
proof (induction evs arbitrary: s)
  case Nil
  then show ?case by simp
next
  case (Cons ev evs)
  then show ?case by (cases ev) (auto simp: handle_page_error_def)
qed

lemma py_last_py_last: "py_last n (py_last n xs @ ys) = py_last n (xs @ ys)"
proof (cases "length xs \<le> n")
  case True
  then show ?thesis by (simp add: py_last_drop)
next
  case False
  then have "length xs - n + n = length xs" by simp
  with False show ?thesis by (simp add: py_last_drop add.commute)
qed

lemma handle_console_py_last:
  "length (console_logs s) \<le> 100 \<Longrightarrow>
     console_logs (handle_console_message ty tx ar ts u s) =
       py_last 100 (console_logs s @
         [\<lparr>level = ty, message = tx, timestamp = ts, url = u, args = ar\<rparr>])"
proof (cases "length (console_logs s) = 100")
  case True
  then obtain a rest where c: "console_logs s = a # rest" and r: "length rest = 99"
    by (cases "console_logs s") auto
  have "py_last 100 ((a # rest) @ [x]) = rest @ [x]" for x
    using r by (simp add: py_last_drop)
  with c r show ?thesis
    by (simp add: handle_console_message_def Let_def)
next
  case False
  assume "length (console_logs s) \<le> 100"
  with False have "length (console_logs s) < 100" by simp
  then show ?thesis
    by (simp add: handle_console_message_def Let_def py_last_drop)
qed

lemma console_only_bounded:
  "list_all is_console evs \<Longrightarrow> length (console_logs s) \<le> 100 \<Longrightarrow>
     console_logs (record_events evs s) = py_last 100 (console_logs s @ map entry_of evs)"
proof (induction evs arbitrary: s)
  case Nil
  then show ?case by (simp add: py_last_drop)
next
  case (Cons ev evs)
  from Cons.prems obtain ty tx ar ts u where ev: "ev = Console ty tx ar ts u"
    by (cases ev) auto
  have d: "console_logs (dispatch ev s) = py_last 100 (console_logs s @ [entry_of ev])"
    using Cons.prems(2) by (simp add: ev handle_console_py_last)
  then have "length (console_logs (dispatch ev s)) \<le> 100"
    by (simp add: length_py_last)
  with Cons.IH [of "dispatch ev s"] Cons.prems(1)
  have "console_logs (record_events (ev # evs) s) =
      py_last 100 (py_last 100 (console_logs s @ [entry_of ev]) @ map entry_of evs)"
    by (simp add: d)
  then show ?case by (simp add: py_last_py_last)
qed

lemma buffer_suffix:
  "suffix (console_logs (record_events evs s)) (console_logs s @ map entry_of evs)"
proof (induction evs arbitrary: s)
  case Nil
  then show ?case by simp
next
  case (Cons ev evs)
  have "suffix (console_logs (dispatch ev s)) (console_logs s @ [entry_of ev])"
    by (cases ev; cases "console_logs s")
      (auto simp: handle_console_message_def handle_page_error_def Let_def suffix_def)
  then have "suffix (console_logs (dispatch ev s) @ map entry_of evs)
      ((console_logs s @ [entry_of ev]) @ map entry_of evs)"
    by (auto simp: suffix_def)
  with Cons.IH [of "dispatch ev s"] show ?case
    by (auto intro: suffix_order.trans)
qed

text \<open>The invariant of the relay task is kept by each of its steps and by a drain.\<close>

lemma stdout_first_snoc_err: "stdout_first (xs @ [(Stderr, t)]) = stdout_first xs"
  by (induction xs rule: stdout_first.induct) auto

lemma stdout_first_snoc_out: "only_stdout xs \<Longrightarrow> stdout_first (xs @ [(Stdout, t)])"
  by (induction xs rule: stdout_first.induct) (auto simp: only_stdout_def)

lemma suffix_snoc: "suffix xs (q @ ys) \<Longrightarrow> suffix (xs @ [a]) (q @ ys @ [a])"
  by (auto simp: suffix_def)

lemma only_stdout_snoc: "only_stdout (xs @ [(st, t)]) = (only_stdout xs \<and> st = Stdout)"
  by (auto simp: only_stdout_def)

lemma only_stdout_no_err: "only_stdout xs \<Longrightarrow> (Stderr, l) \<notin> set xs"
  by (auto simp: only_stdout_def list_all_iff)

lemma put_line_inv_out:
  "relay_inv q0 (r, s) \<Longrightarrow> phase r = ReadingStdout \<Longrightarrow>
     relay_inv q0 (put_line decode Stdout l (r\<lparr>stdout_rest := ls\<rparr>, s))"
  by (simp add: relay_inv_def put_line_def stdout_first_snoc_out only_stdout_snoc suffix_snoc
      split: option.splits)

lemma put_line_inv_err:
  "relay_inv q0 (r, s) \<Longrightarrow> phase r = ReadingStderr \<Longrightarrow>
     relay_inv q0 (put_line decode Stderr l (r\<lparr>stderr_rest := ls\<rparr>, s))"
  by (simp add: relay_inv_def put_line_def stdout_first_snoc_err only_stdout_snoc suffix_snoc
      split: option.splits)

lemma step_inv: "relay_inv q0 rs \<Longrightarrow> relay_inv q0 (capture_output_step decode rs)"
proof -
  assume inv: "relay_inv q0 rs"
  obtain r s where rs: "rs = (r, s)" by (cases rs)
  show ?thesis
  proof (cases "phase r")
    case ReadingStdout
    show ?thesis
    proof (cases "stdout_rest r")
      case Nil
      with inv rs ReadingStdout show ?thesis
        by (simp add: capture_output_step_def relay_inv_def)
    next
      case (Cons l ls)
      with inv rs ReadingStdout put_line_inv_out [of q0 r s decode l ls] show ?thesis
        by (simp add: capture_output_step_def)
    qed
  next
    case ReadingStderr
    show ?thesis
    proof (cases "stderr_rest r")
      case Nil
      with inv rs ReadingStderr show ?thesis
        by (simp add: capture_output_step_def relay_inv_def)
    next
      case (Cons l ls)
      with inv rs ReadingStderr put_line_inv_err [of q0 r s decode l ls] show ?thesis
        by (simp add: capture_output_step_def)
    qed
  next
    case Returned
    with inv rs show ?thesis by (simp add: capture_output_step_def)
  next
    case Raised
    with inv rs show ?thesis by (simp add: capture_output_step_def)
  qed
qed

lemma queue_emptied: "server_logs (snd (get_server_logs s)) = []"
  by (simp add: get_server_logs_def drain_eq Let_def)

lemma drain_inv: "relay_inv q0 (r, s) \<Longrightarrow> relay_inv q0 (r, snd (get_server_logs s))"
  by (simp add: relay_inv_def queue_emptied)

lemma act_inv: "relay_inv q0 rs \<Longrightarrow> relay_inv q0 (act decode a rs)"
proof (cases a)
  case RelayStep
  assume "relay_inv q0 rs"
  with RelayStep show ?thesis by (simp add: step_inv)
next
  case GetServerLogs
  assume inv: "relay_inv q0 rs"
  obtain r s where rs: "rs = (r, s)" by (cases rs)
  with inv GetServerLogs show ?thesis by (simp add: drain_inv)
qed

lemma run_inv: "relay_inv q0 rs \<Longrightarrow> relay_inv q0 (run decode sched rs)"
proof (induction sched arbitrary: rs)
  case Nil
  then show ?case by simp
next
  case (Cons a sched)
  from Cons.prems have "relay_inv q0 (act decode a rs)"
    by (rule act_inv)
  then have "relay_inv q0 (run decode sched (act decode a rs))"
    by (rule Cons.IH)
  then show ?case by simp
qed

lemma new_inv: "relay_inv (server_logs s) (new_relay out err, s)"
  by (simp add: relay_inv_def new_relay_def only_stdout_def)

lemma stdout_first_nth:
  "stdout_first xs \<Longrightarrow> i < length xs \<Longrightarrow> j < length xs \<Longrightarrow>
   fst (xs ! i) = Stdout \<Longrightarrow> fst (xs ! j) = Stderr \<Longrightarrow> i < j"
proof (induction xs arbitrary: i j rule: stdout_first.induct)
  case 1
  then show ?case by simp
next
  case (2 t xs)
  from "2.prems"(5) obtain j' where j: "j = Suc j'"
    by (cases j) auto
  show ?case
  proof (cases i)
    case 0
    with j show ?thesis by simp
  next
    case (Suc i')
    with "2.prems" j have "i' < j'"
      using "2.IH" [of i' j'] by simp
    with Suc j show ?thesis by simp
  qed
next
  case (3 t xs)
  from "3.prems"(4) obtain i' where i: "i = Suc i'"
    by (cases i) auto
  with "3.prems"(2) have "i' < length xs" by simp
  with "3.prems"(1) have "fst (xs ! i') = Stderr"
    by (simp add: list_all_length)
  with "3.prems"(4) i show ?case by simp
qed

text \<open>
  Left alone, with lines that all decode, the task runs both loops to their end: it
  returns after one step per line and one per end of file, having put the stdout lines
  and then the stderr lines.
\<close>

lemma run_append: "run decode (as @ bs) rs = run decode bs (run decode as rs)"
  by (induction as arbitrary: rs) auto

lemma stdout_loop:
  "\<forall>l \<in> set xs. decode l \<noteq> None \<Longrightarrow> phase r = ReadingStdout \<Longrightarrow> stdout_rest r = xs \<Longrightarrow>
     run decode (replicate (length xs) RelayStep) (r, s) =
       (r\<lparr>stdout_rest := [], put_log := put_log r @ map (Pair Stdout) (relay_puts decode xs)\<rparr>,
        s\<lparr>server_logs := server_logs s @ relay_puts decode xs\<rparr>)"
proof (induction xs arbitrary: r s)
  case Nil
  then show ?case by (simp add: relay_puts_def)
next
  case (Cons l ls)
  show ?case
  proof (cases "l = []")
    case True
    have "capture_output_step decode (r, s) = (r\<lparr>stdout_rest := ls\<rparr>, s)"
      using Cons.prems True by (simp add: capture_output_step_def put_line_def)
    moreover have "run decode (replicate (length ls) RelayStep) (r\<lparr>stdout_rest := ls\<rparr>, s) =
       ((r\<lparr>stdout_rest := ls\<rparr>)\<lparr>stdout_rest := [], put_log := put_log (r\<lparr>stdout_rest := ls\<rparr>) @ map (Pair Stdout) (relay_puts decode ls)\<rparr>,
        s\<lparr>server_logs := server_logs s @ relay_puts decode ls\<rparr>)"
      using Cons.prems by (intro Cons.IH) auto
    ultimately show ?thesis
      using True by (simp add: relay_puts_def)
  next
    case False
    from Cons.prems obtain t where t: "decode l = Some t" by auto
    let ?r = "r\<lparr>stdout_rest := ls, put_log := put_log r @ [(Stdout, rstrip t)]\<rparr>"
    let ?s = "s\<lparr>server_logs := server_logs s @ [rstrip t]\<rparr>"
    have "capture_output_step decode (r, s) = (?r, ?s)"
      using Cons.prems False t by (simp add: capture_output_step_def put_line_def)
    moreover have "run decode (replicate (length ls) RelayStep) (?r, ?s) =
       (?r\<lparr>stdout_rest := [], put_log := put_log ?r @ map (Pair Stdout) (relay_puts decode ls)\<rparr>,
        ?s\<lparr>server_logs := server_logs ?s @ relay_puts decode ls\<rparr>)"
      using Cons.prems by (intro Cons.IH) auto
    ultimately show ?thesis
      using False t by (simp add: relay_puts_def)
  qed
qed

lemma stderr_loop:
  "\<forall>l \<in> set xs. decode l \<noteq> None \<Longrightarrow> phase r = ReadingStderr \<Longrightarrow> stderr_rest r = xs \<Longrightarrow>
     run decode (replicate (length xs) RelayStep) (r, s) =
       (r\<lparr>stderr_rest := [], put_log := put_log r @ map (Pair Stderr) (relay_puts decode xs)\<rparr>,
        s\<lparr>server_logs := server_logs s @ relay_puts decode xs\<rparr>)"
proof (induction xs arbitrary: r s)
  case Nil
  then show ?case by (simp add: relay_puts_def)
next
  case (Cons l ls)
  show ?case
  proof (cases "l = []")
    case True
    have "capture_output_step decode (r, s) = (r\<lparr>stderr_rest := ls\<rparr>, s)"
      using Cons.prems True by (simp add: capture_output_step_def put_line_def)
    moreover have "run decode (replicate (length ls) RelayStep) (r\<lparr>stderr_rest := ls\<rparr>, s) =
       ((r\<lparr>stderr_rest := ls\<rparr>)\<lparr>stderr_rest := [], put_log := put_log (r\<lparr>stderr_rest := ls\<rparr>) @ map (Pair Stderr) (relay_puts decode ls)\<rparr>,
        s\<lparr>server_logs := server_logs s @ relay_puts decode ls\<rparr>)"
      using Cons.prems by (intro Cons.IH) auto
    ultimately show ?thesis
      using True by (simp add: relay_puts_def)
  next
    case False
    from Cons.prems obtain t where t: "decode l = Some t" by auto
    let ?r = "r\<lparr>stderr_rest := ls, put_log := put_log r @ [(Stderr, rstrip t)]\<rparr>"
    let ?s = "s\<lparr>server_logs := server_logs s @ [rstrip t]\<rparr>"
    have "capture_output_step decode (r, s) = (?r, ?s)"
      using Cons.prems False t by (simp add: capture_output_step_def put_line_def)
    moreover have "run decode (replicate (length ls) RelayStep) (?r, ?s) =
       (?r\<lparr>stderr_rest := [], put_log := put_log ?r @ map (Pair Stderr) (relay_puts decode ls)\<rparr>,
        ?s\<lparr>server_logs := server_logs ?s @ relay_puts decode ls\<rparr>)"
      using Cons.prems by (intro Cons.IH) auto
    ultimately show ?thesis
      using False t by (simp add: relay_puts_def)
  qed
qed

lemma capture_output_completes:
  assumes "\<forall>l \<in> set out \<union> set err. decode l \<noteq> None"
  shows "run decode (replicate (length out) RelayStep @ [RelayStep] @
                     replicate (length err) RelayStep @ [RelayStep]) (new_relay out err, s) =
     (\<lparr>phase = Returned, stdout_rest = [], stderr_rest = [],
       put_log = map (Pair Stdout) (relay_puts decode out) @ map (Pair Stderr) (relay_puts decode err)\<rparr>,
      s\<lparr>server_logs := server_logs s @ relay_puts decode out @ relay_puts decode err\<rparr>)"
proof -
  have 1: "run decode (replicate (length out) RelayStep) (new_relay out err, s) =
      (\<lparr>phase = ReadingStdout, stdout_rest = [], stderr_rest = err,
        put_log = map (Pair Stdout) (relay_puts decode out)\<rparr>,
       s\<lparr>server_logs := server_logs s @ relay_puts decode out\<rparr>)"
    using assms stdout_loop [of out decode "new_relay out err" s]
    by (simp add: new_relay_def)
  let ?r2 = "\<lparr>phase = ReadingStderr, stdout_rest = [], stderr_rest = err,
        put_log = map (Pair Stdout) (relay_puts decode out)\<rparr>"
  let ?s2 = "s\<lparr>server_logs := server_logs s @ relay_puts decode out\<rparr>"
  have 2: "run decode (replicate (length err) RelayStep) (?r2, ?s2) =
      (\<lparr>phase = ReadingStderr, stdout_rest = [], stderr_rest = [],
        put_log = map (Pair Stdout) (relay_puts decode out) @ map (Pair Stderr) (relay_puts decode err)\<rparr>,
       s\<lparr>server_logs := server_logs s @ relay_puts decode out @ relay_puts decode err\<rparr>)"
    using assms stderr_loop [of err decode ?r2 ?s2]
    by simp
  show ?thesis
    by (simp add: run_append 1 2 capture_output_step_def)
qed

text \<open>Evaluations used below.\<close>

lemma rstrip_examples: "rstrip ''out '' = ''out''" "rstrip ''err'' = ''err''"
  "rstrip (''x'' @ [CHR 0xC2, CHR 0xA0, CHR 0xE3, CHR 0x80, CHR 0x80, CHR 0x0A]) = ''x''"
  "rstrip (''x'' @ [CHR 0xC3, CHR 0xA9]) = ''x'' @ [CHR 0xC3, CHR 0xA9]"
  by code_simp+

text \<open>Joining texts that contain no separator gives one separator less than texts.\<close>

lemma count_sep_join:
  "xs \<noteq> [] \<Longrightarrow> \<forall>x \<in> set xs. c \<notin> set x \<Longrightarrow>
     length (filter (\<lambda>d. d = c) (join [c] xs)) + 1 = length xs"
proof (induction "[c]" xs rule: join.induct)
  case 1
  then show ?case by simp
next
  case (2 x)
  then have "filter (\<lambda>d. d = c) x = []"
    by (auto simp: filter_empty_conv)
  then show ?case by simp
next
  case (3 x y ys)
  then have "filter (\<lambda>d. d = c) x = []"
    by (auto simp: filter_empty_conv)
  with 3 show ?case by simp
qed

lemma upper_examples: "upper ''log'' = ''LOG''" "upper ''error'' = ''ERROR''"
  by code_simp+

lemma get_console_logs_two_events:
  "get_console_logs (record_events two_events started) =
     ''[2026-01-01 10:00:00] [LOG] hello - http://localhost:5001/'' @ newline @
     ''[2026-01-01 10:00:01] [ERROR] Page Error: boom - http://localhost:5001/''"
  by (simp add: get_console_logs_def two_events_def started_def running_def
      handle_console_message_def handle_page_error_def py_last_def format_entry_def
      upper_examples)

lemma run_example:
  "run Some [RelayStep, RelayStep, RelayStep, RelayStep] (new_relay [''out ''] [''err''], init) =
     (\<lparr>phase = Returned, stdout_rest = [], stderr_rest = [],
       put_log = [(Stdout, ''out''), (Stderr, ''err'')]\<rparr>,
      init\<lparr>server_logs := [''out'', ''err'']\<rparr>)"
  by (simp add: new_relay_def capture_output_step_def put_line_def rstrip_examples init_def)

subsection \<open>start_app\<close>




subsection \<open>stop_app\<close>

text \<open>
  C2. The last test of stop_app reads the handle after lines 101 to 104 have cleared it.
  Whenever stop_app returns a message: the message is "App stopped successfully."
  exactly when the handle is absent afterwards; a process that was live has been
  terminated and awaited and its handle cleared, so the message is the success one;
  and "App is not running." is returned only for a handle whose returncode was already
  set, never when there was no handle at all. stop_app returns a message whenever the
  calls it awaits return.
\<close>

theorem stop_app_checks_after_clearing:
  "(teardown_completes e \<longrightarrow> (\<exists>m s'. stop_app e s = (Inr m, s'))) \<and>
   (stop_app e s = (Inr m, s') \<longrightarrow>
      (m = ''App stopped successfully.'' \<longleftrightarrow> app_process s' = None) \<and>
      (m = ''App is not running.'' \<longleftrightarrow> (\<exists>p. app_process s = Some p \<and> returncode p \<noteq> None)) \<and>
      (app_process s = None \<longrightarrow> m = ''App stopped successfully.'') \<and>
      (running s \<longrightarrow> app_process s' = None \<and> m = ''App stopped successfully.'' \<and>
         (\<exists>p rest. app_process s = Some p \<and>
            effects s' = effects s @ [Terminated (pid p), Waited (pid p)] @ rest)))"
proof (intro conjI impI)
  assume "teardown_completes e"
  then show "\<exists>m s'. stop_app e s = (Inr m, s')"
    by (rule stop_app_returns)
next
  assume r: "stop_app e s = (Inr m, s')"
  then show "m = ''App stopped successfully.'' \<longleftrightarrow> app_process s' = None"
    by (auto simp: stop_app_def stop_process_def stop_browser_def stop_driver_def did_def
        Let_def split: option.splits if_splits)
  from r show "m = ''App is not running.'' \<longleftrightarrow> (\<exists>p. app_process s = Some p \<and> returncode p \<noteq> None)"
    by (auto simp: stop_app_def stop_process_def stop_browser_def stop_driver_def did_def
        Let_def split: option.splits if_splits)
  {
    assume "app_process s = None"
    with r show "m = ''App stopped successfully.''"
      by (auto simp: stop_app_def stop_process_def stop_browser_def stop_driver_def did_def
          Let_def split: option.splits if_splits)
  }
  {
    assume live: "running s"
    with r show "app_process s' = None"
      by (auto simp: stop_app_def stop_process_def stop_browser_def stop_driver_def did_def
          running_def Let_def split: option.splits if_splits)
    from r live show "m = ''App stopped successfully.''"
      by (auto simp: stop_app_def stop_process_def stop_browser_def stop_driver_def did_def
          running_def Let_def split: option.splits if_splits)
    from r live show "\<exists>p rest. app_process s = Some p \<and>
        effects s' = effects s @ [Terminated (pid p), Waited (pid p)] @ rest"
      by (auto simp: stop_app_def stop_process_def stop_browser_def stop_driver_def did_def
          running_def Let_def split: option.splits if_splits)
  }
qed

theorem stop_app_checks_after_clearing_witness:
  "teardown_completes ok_env \<and> running started \<and>
   stop_app ok_env started =
     (Inr ''App stopped successfully.'',
      started\<lparr>app_process := None, browser := None, playwright := None,
        effects := effects started @
          [Terminated 4242, Waited 4242, BrowserClosed 2, DriverStopped 1]\<rparr>) \<and>
   app_process (snd (stop_app ok_env started)) = None"
  using stop_app_checks_after_clearing [of ok_env started "''App stopped successfully.''"
      "started\<lparr>app_process := None, browser := None, playwright := None,
        effects := effects started @
          [Terminated 4242, Waited 4242, BrowserClosed 2, DriverStopped 1]\<rparr>"]
    teardown_ok_env running_started stop_app_started
  by simp

text \<open>
  C6. Whenever stop_app returns its message, a following get_app_status answers
  "App is not running", and the globals \<^verbatim>\<open>browser\<close> and \<^verbatim>\<open>playwright\<close> are None,
  the browser they held closed and the driver stopped; this holds from every state,
  with or without a live process. (The global \<^verbatim>\<open>page\<close> is not reset.) stop_app
  returns whenever the calls it awaits return; when no process is live and no browser
  and no driver are held it awaits nothing, whatever the environment, and returns with
  the state as it was.
\<close>

theorem stop_app_then_status:
  "(stop_app e s = (Inr m, s') \<longrightarrow>
      get_app_status s' = ''App is not running'' \<and> \<not> running s' \<and>
      browser s' = None \<and> playwright s' = None \<and>
      (\<forall>b. browser s = Some b \<longrightarrow> BrowserClosed b \<in> set (effects s')) \<and>
      (\<forall>pw. playwright s = Some pw \<longrightarrow> DriverStopped pw \<in> set (effects s'))) \<and>
   (teardown_completes e \<longrightarrow> (\<exists>m s'. stop_app e s = (Inr m, s'))) \<and>
   (\<not> running s \<and> browser s = None \<and> playwright s = None \<longrightarrow>
      (\<exists>m. stop_app e s = (Inr m, s)))"
proof (intro conjI impI)
  assume "teardown_completes e"
  then show "\<exists>m s'. stop_app e s = (Inr m, s')"
    by (rule stop_app_returns)
next
  assume "\<not> running s \<and> browser s = None \<and> playwright s = None"
  then show "\<exists>m. stop_app e s = (Inr m, s)"
    by (auto simp: stop_app_def stop_process_def stop_browser_def stop_driver_def
        running_def split: option.splits)
next
  assume r: "stop_app e s = (Inr m, s')"
  then have np: "\<not> running s'"
    by (auto simp: stop_app_def stop_process_def stop_browser_def stop_driver_def did_def
        running_def Let_def split: option.splits if_splits)
  then show "\<not> running s'" .
  from np show "get_app_status s' = ''App is not running''"
    by (auto simp: get_app_status_def running_def split: option.splits)
  from r show "browser s' = None"
    by (auto simp: stop_app_def stop_process_def stop_browser_def stop_driver_def did_def
        Let_def split: option.splits if_splits)
  from r show "playwright s' = None"
    by (auto simp: stop_app_def stop_process_def stop_browser_def stop_driver_def did_def
        Let_def split: option.splits if_splits)
  from r show "\<forall>b. browser s = Some b \<longrightarrow> BrowserClosed b \<in> set (effects s')"
    by (auto simp: stop_app_def stop_process_def stop_browser_def stop_driver_def did_def
        Let_def split: option.splits if_splits)
  from r show "\<forall>pw. playwright s = Some pw \<longrightarrow> DriverStopped pw \<in> set (effects s')"
    by (auto simp: stop_app_def stop_process_def stop_browser_def stop_driver_def did_def
        Let_def split: option.splits if_splits)
qed

theorem stop_app_then_status_witness:
  "teardown_completes ok_env \<and>
   get_app_status (snd (stop_app ok_env started)) = ''App is not running'' \<and>
   browser (snd (stop_app ok_env started)) = None \<and>
   playwright (snd (stop_app ok_env started)) = None \<and>
   BrowserClosed 2 \<in> set (effects (snd (stop_app ok_env started))) \<and>
   DriverStopped 1 \<in> set (effects (snd (stop_app ok_env started))) \<and>
   \<not> running init \<and> browser init = None \<and> playwright init = None \<and>
   stop_app launch_fails_env init = (Inr ''App stopped successfully.'', init)"
proof -
  have a: "\<not> running init \<and> browser init = None \<and> playwright init = None"
    by (simp add: init_def running_def)
  have b: "stop_app launch_fails_env init = (Inr ''App stopped successfully.'', init)"
    by (simp add: stop_app_def stop_process_def stop_browser_def stop_driver_def init_def)
  have c: "browser started = Some 2 \<and> playwright started = Some 1"
    by (simp add: started_def)
  show ?thesis
    using stop_app_then_status [of ok_env started "''App stopped successfully.''"
        "snd (stop_app ok_env started)"]
      stop_app_then_status [of launch_fails_env init]
      teardown_ok_env stop_app_started a b c
    by simp
qed



subsection \<open>Failures of the automation driver\<close>

text \<open>
  C4. The browser cannot be launched: start_app, called with nothing running, spawns
  the process, creates the relay task, starts the driver, and then leaves with the
  exception of \<^verbatim>\<open>chromium.launch\<close>. It returns no message.
\<close>

theorem start_app_setup_failure_escapes:
  "start_app launch_fails_env init =
     (Inl (Exception ''Executable does not exist''),
      \<lparr>app_process = Some \<lparr>pid = 4242, returncode = None\<rparr>, server_logs = [],
       console_logs = [], browser = None, page = None, playwright = Some 1,
       effects = [Spawned 4242, TaskCreated 4242, Slept, DriverStarted 1]\<rparr>)"
  by (simp add: start_app_def init_def ok_env_def launch_fails_env_def running_def did_def
      setup_browser_console_capture_def)

text \<open>
  C8. With the app running and a page open, a click that raises an \<^verbatim>\<open>Exception\<close>
  (no element, not interactable, timeout) makes click_element return a string that
  contains the selector and "Failed to click", with the state as it was. No exception
  leaves click_element unless the click raises one that is not an \<^verbatim>\<open>Exception\<close>.
\<close>

theorem click_element_failure:
  "(running s \<and> page s = Some pg \<and> page_click e selector = Some (Exception msg) \<longrightarrow>
      (\<exists>r. click_element e selector s = (Inr r, s) \<and>
         r = ''Failed to click element '' @ [CHR 0x27] @ selector @ [CHR 0x27] @ '': '' @ msg \<and>
         sublist selector r \<and> sublist ''Failed to click'' r)) \<and>
   ((\<forall>m. page_click e selector \<noteq> Some (BaseException m)) \<longrightarrow>
      (\<exists>r s'. click_element e selector s = (Inr r, s')))"
proof (intro conjI impI)
  assume a: "running s \<and> page s = Some pg \<and> page_click e selector = Some (Exception msg)"
  let ?r = "''Failed to click element '' @ [CHR 0x27] @ selector @ [CHR 0x27] @ '': '' @ msg"
  have 1: "click_element e selector s = (Inr ?r, s)"
    using a by (simp add: click_element_def)
  have "?r = (''Failed to click element '' @ [CHR 0x27]) @ selector @ ([CHR 0x27] @ '': '' @ msg)"
    by simp
  then have 2: "sublist selector ?r"
    by (metis sublist_appendI)
  have "?r = [] @ ''Failed to click'' @
      ('' element '' @ [CHR 0x27] @ selector @ [CHR 0x27] @ '': '' @ msg)"
    by simp
  then have 3: "sublist ''Failed to click'' ?r"
    by (metis sublist_appendI)
  from 1 2 3 show "\<exists>r. click_element e selector s = (Inr r, s) \<and> r = ?r \<and>
      sublist selector r \<and> sublist ''Failed to click'' r"
    by blast
next
  assume "\<forall>m. page_click e selector \<noteq> Some (BaseException m)"
  then show "\<exists>r s'. click_element e selector s = (Inr r, s')"
    by (auto simp: click_element_def split: option.splits exn.splits)
qed

theorem click_element_failure_witness:
  "running started \<and> page started = Some 3 \<and>
   page_click no_element_env ''#does-not-exist'' = Some (Exception ''Timeout 30000ms exceeded'') \<and>
   click_element no_element_env ''#does-not-exist'' started =
     (Inr (''Failed to click element '' @ [CHR 0x27] @ ''#does-not-exist'' @ [CHR 0x27] @
           '': Timeout 30000ms exceeded''), started) \<and>
   sublist ''#does-not-exist''
     (''Failed to click element '' @ [CHR 0x27] @ ''#does-not-exist'' @ [CHR 0x27] @
      '': Timeout 30000ms exceeded'')"
proof -
  have a: "page started = Some 3"
    by (simp add: started_def)
  have b: "page_click no_element_env ''#does-not-exist'' = Some (Exception ''Timeout 30000ms exceeded'')"
    by (simp add: no_element_env_def)
  show ?thesis
    using click_element_failure [of started 3 no_element_env "''#does-not-exist''"
        "''Timeout 30000ms exceeded''"]
      running_started a b
    by auto
qed

subsection \<open>The log containers\<close>

text \<open>
  C3. After a completed browser session setup the console log list is empty. 101 page
  errors follow, and no console message. handle_page_error appends without the length
  test that handle_console_message makes, so the list then holds 101 entries and its
  oldest entry is still the first one emitted.
\<close>

theorem console_logs_exceed_100:
  "length (console_logs (record_events page_errors_101 started)) = 101 \<and>
   message (hd (console_logs (record_events page_errors_101 started))) = ''Page Error: first''"
proof -
  have "list_all (\<lambda>ev. \<not> is_console ev) page_errors_101"
    by (simp add: page_errors_101_def list_all_iff)
  then have "console_logs (record_events page_errors_101 started) = map entry_of page_errors_101"
    by (simp add: page_errors_appended started_def)
  then show ?thesis
    by (simp add: page_errors_101_def)
qed

text \<open>
  C5. get_server_logs empties the queue. When the queue held lines, the answer is the
  last 50 of them (all of them when there are fewer), joined by newlines. A second call
  right after it finds nothing and answers with one of the two "no logs" messages; and
  when lines \<open>new\<close> were put in between, the second call answers from \<open>new\<close> alone.
\<close>

theorem get_server_logs_destructive:
  "server_logs (snd (get_server_logs s)) = [] \<and>
   (server_logs s \<noteq> [] \<longrightarrow>
      fst (get_server_logs s) = join newline (py_last 50 (server_logs s))) \<and>
   py_last 50 (server_logs s) = drop (length (server_logs s) - 50) (server_logs s) \<and>
   length (py_last 50 (server_logs s)) = min 50 (length (server_logs s)) \<and>
   fst (get_server_logs (snd (get_server_logs s))) =
     (if running s then ''No new server logs. Server is running.''
      else ''No server logs. Server is not running.'') \<and>
   (new \<noteq> [] \<longrightarrow>
      fst (get_server_logs ((snd (get_server_logs s))\<lparr>server_logs :=
             server_logs (snd (get_server_logs s)) @ new\<rparr>)) =
        join newline (py_last 50 new))"
proof -
  have e: "snd (get_server_logs s) = s\<lparr>server_logs := []\<rparr>"
    by (simp add: get_server_logs_def drain_eq Let_def)
  have r: "running (s\<lparr>server_logs := []\<rparr>) = running s"
    by (simp add: running_def)
  show ?thesis
    by (simp add: e r get_server_logs_nonempty get_server_logs_empty py_last_drop)
qed

theorem get_server_logs_destructive_witness:
  "server_logs (started\<lparr>server_logs := [''boot'', ''ready'']\<rparr>) \<noteq> [] \<and>
   fst (get_server_logs (started\<lparr>server_logs := [''boot'', ''ready'']\<rparr>)) =
     ''boot'' @ newline @ ''ready'' \<and>
   [''late''] \<noteq> [] \<and>
   fst (get_server_logs ((snd (get_server_logs (started\<lparr>server_logs := [''boot'', ''ready'']\<rparr>)))
      \<lparr>server_logs :=
         server_logs (snd (get_server_logs (started\<lparr>server_logs := [''boot'', ''ready'']\<rparr>))) @
         [''late'']\<rparr>)) = ''late'' \<and>
   length (py_last 50 (server_logs (init\<lparr>server_logs := replicate 51 ''x''\<rparr>))) = 50"
proof -
  let ?s = "started\<lparr>server_logs := [''boot'', ''ready'']\<rparr>"
  note first = get_server_logs_destructive [of ?s "[''late'']"]
  have a: "join newline (py_last 50 (server_logs ?s)) = ''boot'' @ newline @ ''ready''"
    by (simp add: py_last_def)
  have b: "join newline (py_last 50 [''late'']) = ''late''"
    by (simp add: py_last_def)
  have 1: "fst (get_server_logs ?s) = ''boot'' @ newline @ ''ready''"
    using first a by simp
  have "fst (get_server_logs ((snd (get_server_logs ?s))
      \<lparr>server_logs := server_logs (snd (get_server_logs ?s)) @ [''late'']\<rparr>)) =
      join newline (py_last 50 [''late''])"
    using first by blast
  then have 2: "fst (get_server_logs ((snd (get_server_logs ?s))
      \<lparr>server_logs := server_logs (snd (get_server_logs ?s)) @ [''late'']\<rparr>)) = ''late''"
    by (simp only: b)
  have 3: "length (py_last 50 (server_logs (init\<lparr>server_logs := replicate 51 ''x''\<rparr>))) = 50"
    using get_server_logs_destructive [of "init\<lparr>server_logs := replicate 51 ''x''\<rparr>" "[]"]
    by simp
  from 1 2 3 show ?thesis
    by simp
qed

subsection \<open>get_console_logs\<close>

text \<open>
  C7. get_console_logs answers "App is not running. ..." when no process is live (no
  handle, or a returncode that is set), whatever the list holds, and so in the initial
  state; "No browser console logs captured yet. ..." when a process is live and the
  list is empty; and otherwise the texts \<open>[timestamp] [LEVEL] message - url\<close> of the
  last 20 entries of the list (all of them when there are fewer), in the order of the
  list, so that the newest entry comes last, with one line feed (the character 0x0A)
  between two of them: when no such text contains a line feed, the answer has as many
  lines as entries shown.
\<close>

theorem get_console_logs_cases:
  "(\<not> running s \<longrightarrow>
      get_console_logs s = ''App is not running. Start the app first to capture console logs.'') \<and>
   get_console_logs init = ''App is not running. Start the app first to capture console logs.'' \<and>
   (running s \<and> console_logs s = [] \<longrightarrow>
      get_console_logs s =
        ''No browser console logs captured yet. Use navigate_to() to visit pages and generate logs.'') \<and>
   (running s \<and> console_logs s \<noteq> [] \<longrightarrow>
      get_console_logs s = join [CHR 0x0A] (map format_entry (py_last 20 (console_logs s))) \<and>
      py_last 20 (console_logs s) = drop (length (console_logs s) - 20) (console_logs s) \<and>
      length (py_last 20 (console_logs s)) = min 20 (length (console_logs s)) \<and>
      last (map format_entry (py_last 20 (console_logs s))) = format_entry (last (console_logs s))) \<and>
   (running s \<and> console_logs s \<noteq> [] \<and>
    (\<forall>l \<in> set (console_logs s). CHR 0x0A \<notin> set (format_entry l)) \<longrightarrow>
      length (filter (\<lambda>c. c = CHR 0x0A) (get_console_logs s)) + 1 =
        min 20 (length (console_logs s))) \<and>
   format_entry l =
     ''['' @ timestamp l @ ''] ['' @ upper (level l) @ ''] '' @ message l @ '' - '' @ url l"
proof (intro conjI impI)
  show "get_console_logs init = ''App is not running. Start the app first to capture console logs.''"
    by (simp add: get_console_logs_def init_def running_def)
next
  show "format_entry l =
     ''['' @ timestamp l @ ''] ['' @ upper (level l) @ ''] '' @ message l @ '' - '' @ url l"
    by (simp add: format_entry_def)
next
  assume "\<not> running s"
  then show "get_console_logs s = ''App is not running. Start the app first to capture console logs.''"
    by (simp add: get_console_logs_def)
next
  assume "running s \<and> console_logs s = []"
  then show "get_console_logs s =
        ''No browser console logs captured yet. Use navigate_to() to visit pages and generate logs.''"
    by (simp add: get_console_logs_def)
next
  assume a: "running s \<and> console_logs s \<noteq> []"
  then show "get_console_logs s = join [CHR 0x0A] (map format_entry (py_last 20 (console_logs s)))"
    by (simp add: get_console_logs_def format_loop_eq newline_def)
  show "py_last 20 (console_logs s) = drop (length (console_logs s) - 20) (console_logs s)"
    by (rule py_last_drop)
  show "length (py_last 20 (console_logs s)) = min 20 (length (console_logs s))"
    by (rule length_py_last)
  from a have "length (py_last 20 (console_logs s)) \<noteq> 0"
    by (simp add: length_py_last)
  then have "py_last 20 (console_logs s) \<noteq> []"
    by auto
  then show "last (map format_entry (py_last 20 (console_logs s))) = format_entry (last (console_logs s))"
    by (simp add: last_map py_last_drop)
next
  assume a: "running s \<and> console_logs s \<noteq> [] \<and>
    (\<forall>l \<in> set (console_logs s). CHR 0x0A \<notin> set (format_entry l))"
  let ?shown = "map format_entry (py_last 20 (console_logs s))"
  from a have eq: "get_console_logs s = join [CHR 0x0A] ?shown"
    by (simp add: get_console_logs_def format_loop_eq newline_def)
  from a have "length (py_last 20 (console_logs s)) \<noteq> 0"
    by (simp add: length_py_last)
  then have ne: "?shown \<noteq> []"
    by auto
  have "set (py_last 20 (console_logs s)) \<subseteq> set (console_logs s)"
    by (simp add: py_last_drop set_drop_subset)
  with a have "\<forall>x \<in> set ?shown. CHR 0x0A \<notin> set x"
    by auto
  with ne have "length (filter (\<lambda>d. d = CHR 0x0A) (join [CHR 0x0A] ?shown)) + 1 = length ?shown"
    by (rule count_sep_join)
  with eq show "length (filter (\<lambda>c. c = CHR 0x0A) (get_console_logs s)) + 1 =
      min 20 (length (console_logs s))"
    by (simp add: length_py_last)
qed

theorem get_console_logs_cases_witness:
  "\<not> running init \<and>
   get_console_logs init = ''App is not running. Start the app first to capture console logs.'' \<and>
   running started \<and> console_logs started = [] \<and>
   get_console_logs started =
     ''No browser console logs captured yet. Use navigate_to() to visit pages and generate logs.'' \<and>
   running (record_events two_events started) \<and>
   console_logs (record_events two_events started) \<noteq> [] \<and>
   console_logs (record_events two_events started) = map entry_of two_events \<and>
   CHR 0x0A \<notin> set (format_entry (entry_of (two_events ! 0))) \<and>
   CHR 0x0A \<notin> set (format_entry (entry_of (two_events ! 1))) \<and>
   get_console_logs (record_events two_events started) =
     ''[2026-01-01 10:00:00] [LOG] hello - http://localhost:5001/'' @ [CHR 0x0A] @
     ''[2026-01-01 10:00:01] [ERROR] Page Error: boom - http://localhost:5001/'' \<and>
   length (filter (\<lambda>c. c = CHR 0x0A) (get_console_logs (record_events two_events started))) + 1 = 2"
proof -
  have a: "\<not> running init"
    by (simp add: init_def running_def)
  have b: "console_logs started = []"
    by (simp add: started_def)
  have c: "running (record_events two_events started) \<and>
      console_logs (record_events two_events started) \<noteq> []"
    by (simp add: two_events_def started_def running_def handle_console_message_def
        handle_page_error_def)
  have d: "\<forall>l \<in> set (console_logs (record_events two_events started)).
      CHR 0x0A \<notin> set (format_entry l)"
    by (simp add: two_events_def started_def handle_console_message_def
        handle_page_error_def format_entry_def upper_examples)
  have e: "length (console_logs (record_events two_events started)) = 2"
    by (simp add: two_events_def started_def handle_console_message_def handle_page_error_def)
  have h: "console_logs (record_events two_events started) = map entry_of two_events"
    "CHR 0x0A \<notin> set (format_entry (entry_of (two_events ! 0)))"
    "CHR 0x0A \<notin> set (format_entry (entry_of (two_events ! 1)))"
    by (simp_all add: two_events_def started_def handle_console_message_def
        handle_page_error_def format_entry_def upper_examples)
  have f: "get_console_logs (record_events two_events started) =
     ''[2026-01-01 10:00:00] [LOG] hello - http://localhost:5001/'' @ [CHR 0x0A] @
     ''[2026-01-01 10:00:01] [ERROR] Page Error: boom - http://localhost:5001/''"
    using get_console_logs_two_events by (simp add: newline_def)
  have "length (filter (\<lambda>c. c = CHR 0x0A) (get_console_logs (record_events two_events started))) + 1 =
      min 20 (length (console_logs (record_events two_events started)))"
    using get_console_logs_cases [of "record_events two_events started"] c d
    by blast
  then have g: "length (filter (\<lambda>c. c = CHR 0x0A) (get_console_logs (record_events two_events started))) + 1 = 2"
    by (simp add: e)
  show ?thesis
    using get_console_logs_cases [of init] get_console_logs_cases [of started]
      a b c f g h running_started
    by simp
qed

subsection \<open>capture_output\<close>

text \<open>
  C9. Take any run of the relay task of one process, from its start, under any
  schedule that lets calls of get_server_logs run between its steps. At the end of the
  run (and so at every moment of it, a prefix of a schedule being a schedule) every put
  of a stdout line comes before every put of a stderr line; if a stderr line has been
  put at all, stdout has delivered its end of file and the first loop is over; and the
  queue holds a final segment of what it held at the start followed by the lines put.
\<close>

theorem capture_output_stdout_first:
  "run decode sched (new_relay out err, s) = (r, s') \<Longrightarrow>
     (\<forall>i j. i < length (put_log r) \<and> j < length (put_log r) \<and>
        fst (put_log r ! i) = Stdout \<and> fst (put_log r ! j) = Stderr \<longrightarrow> i < j) \<and>
     ((\<exists>l. (Stderr, l) \<in> set (put_log r)) \<longrightarrow> stdout_rest r = [] \<and> phase r \<noteq> ReadingStdout) \<and>
     suffix (server_logs s') (server_logs s @ map snd (put_log r))"
proof -
  assume result: "run decode sched (new_relay out err, s) = (r, s')"
  have "relay_inv (server_logs s) (new_relay out err, s)"
    by (rule new_inv)
  then have "relay_inv (server_logs s) (run decode sched (new_relay out err, s))"
    by (rule run_inv)
  with result have inv: "relay_inv (server_logs s) (r, s')"
    by simp
  then have "stdout_first (put_log r)"
    by (simp add: relay_inv_def)
  then have 1: "\<forall>i j. i < length (put_log r) \<and> j < length (put_log r) \<and>
        fst (put_log r ! i) = Stdout \<and> fst (put_log r ! j) = Stderr \<longrightarrow> i < j"
    by (blast intro: stdout_first_nth)
  from inv have "only_stdout (put_log r) \<or> (stdout_rest r = [] \<and> phase r \<noteq> ReadingStdout)"
    by (simp add: relay_inv_def)
  then have 2: "(\<exists>l. (Stderr, l) \<in> set (put_log r)) \<longrightarrow>
      stdout_rest r = [] \<and> phase r \<noteq> ReadingStdout"
    using only_stdout_no_err by blast
  from inv have 3: "suffix (server_logs s') (server_logs s @ map snd (put_log r))"
    by (simp add: relay_inv_def)
  from 1 2 3 show ?thesis by blast
qed

theorem capture_output_stdout_first_witness:
  "run Some [RelayStep, RelayStep, RelayStep, RelayStep] (new_relay [''out ''] [''err''], init) =
     (\<lparr>phase = Returned, stdout_rest = [], stderr_rest = [],
       put_log = [(Stdout, ''out''), (Stderr, ''err'')]\<rparr>,
      init\<lparr>server_logs := [''out'', ''err'']\<rparr>) \<and>
   suffix [''out'', ''err''] (server_logs init @ [''out'', ''err''])"
  using capture_output_stdout_first [OF run_example] run_example
  by simp

end
